theory Spec2Isabelle
  imports Main "HOL-Library.Product_Lexorder"
begin

section \<open>Python values, exceptions and model lookups\<close>

text \<open>
  The values that travel in request data and in model fields: \<open>None\<close>, integers and
  strings (primary keys of record types are strings, a JSON document is kept as its text).
\<close>

datatype pyval = PNone | PInt int | PStr string

text \<open>The exceptions the views of \<open>ashlar/views.py\<close> meet.\<close>

datatype exn = DoesNotExist | MultipleObjectsReturned | IntegrityError | ValidationError

text \<open>
  \<open>Model.objects.get(**lookup)\<close>: the one row that satisfies the lookup. It raises
  \<open>DoesNotExist\<close> when no row does and \<open>MultipleObjectsReturned\<close> when several do.
\<close>

definition objects_get :: "('a \<Rightarrow> bool) \<Rightarrow> 'a list \<Rightarrow> exn + 'a" where
  "objects_get P rows =
     (case filter P rows of
        [] \<Rightarrow> Inl DoesNotExist
      | x # rest \<Rightarrow> (if rest = [] then Inr x else Inl MultipleObjectsReturned))"

section \<open>The schema model\<close>

text \<open>
  A row of \<open>RecordSchema\<close>: primary key, the record type it belongs to, its version, the
  schema document, and \<open>next_version\<close>, the nullable one-to-one link to the row that
  supersedes it (migration 0007).
\<close>

record RecordSchema =
  pk :: nat
  record_type :: pyval
  version :: int
  schema :: pyval
  next_version :: "nat option"

text \<open>The keyword arguments of \<open>get_serializer\<close>: \<open>data\<close> when present, and the others.\<close>

record kwargs =
  kw_data :: "(string \<rightharpoonup> pyval) option"
  kw_rest :: "(string \<times> pyval) list"

text \<open>The lookup \<open>record_type=rt, next_version=None\<close>: the current head of a type.\<close>

definition is_head :: "pyval \<Rightarrow> RecordSchema \<Rightarrow> bool" where
  "is_head rt s = (record_type s = rt \<and> next_version s = None)"

text \<open>
  \<open>RecordSchemaViewSet.get_serializer\<close>. The result stands for the call of the inherited
  \<open>get_serializer\<close>: the positional and keyword arguments it is given. The exception
  \<open>DoesNotExist\<close> is caught, any other one leaves the method.
\<close>

definition get_serializer ::
  "string \<Rightarrow> RecordSchema list \<Rightarrow> pyval list \<Rightarrow> kwargs \<Rightarrow> exn + (pyval list \<times> kwargs)" where
  "get_serializer act rows args kw =
     (case kw_data kw of
        None \<Rightarrow> Inr (args, kw)
      | Some d \<Rightarrow>
          (case d ''record_type'' of
             None \<Rightarrow> Inr (args, kw)
           | Some rt \<Rightarrow>
               (if act = ''create'' then
                  (case objects_get (is_head rt) rows of
                     Inr head \<Rightarrow>
                       Inr (args, kw\<lparr>kw_data := Some (d(''version'' \<mapsto> PInt (version head + 1)))\<rparr>)
                   | Inl e \<Rightarrow>
                       (if e = DoesNotExist
                        then Inr (args, kw\<lparr>kw_data := Some (d(''version'' \<mapsto> PInt 1))\<rparr>)
                        else Inl e))
                else Inr (args, kw))))"

text \<open>
  Modelled from the spec: the create step of the schema serializer
  (\<open>ashlar/serializers.py\<close> is not under src/). The spec of \<open>createSchema\<close> says: the new
  row gets the version that was computed; when the type has a current head, the head's
  \<open>next_version\<close> is set to the new row; otherwise the new row is the first of its type.
  The new primary key is the next unused position of the table: rows are never deleted
  through this interface. The spec also says that the creation fails with
  \<open>ValidationError\<close>, and writes nothing, when the document is not a well-formed schema
  definition; what is well-formed is decided by the validator (\<open>ashlar/models.py\<close>, not
  under src/) and is the parameter \<open>wellformed\<close>.
\<close>

definition link_head :: "nat \<Rightarrow> nat \<Rightarrow> RecordSchema \<Rightarrow> RecordSchema" where
  "link_head h n s = (if pk s = h then s\<lparr>next_version := Some n\<rparr> else s)"

definition serializer_save ::
  "(pyval \<Rightarrow> bool) \<Rightarrow> RecordSchema list \<Rightarrow> (string \<rightharpoonup> pyval) \<Rightarrow>
   exn + (RecordSchema \<times> RecordSchema list)" where
  "serializer_save wellformed rows d =
     (case d ''record_type'' of
        None \<Rightarrow> Inl ValidationError
      | Some rt \<Rightarrow>
          (case d ''schema'' of
             None \<Rightarrow> Inl ValidationError
           | Some doc \<Rightarrow>
               (case d ''version'' of
                  Some (PInt v) \<Rightarrow>
                    (if \<not> wellformed doc then Inl ValidationError else
                     let new = \<lparr>pk = length rows, record_type = rt, version = v,
                                schema = doc, next_version = None\<rparr>
                     in case objects_get (is_head rt) rows of
                          Inr head \<Rightarrow> Inr (new, map (link_head (pk head) (pk new)) rows @ [new])
                        | Inl e \<Rightarrow>
                            (if e = DoesNotExist then Inr (new, rows @ [new]) else Inl e))
                | _ \<Rightarrow> Inl ValidationError)))"

text \<open>
  The create action of the view set (the inherited \<open>CreateModelMixin.create\<close>): the
  serializer is obtained from \<open>get_serializer(data=request.data)\<close>, then validated and
  saved; both are \<open>serializer_save\<close>, which refuses before it writes.
\<close>

definition create_view ::
  "(pyval \<Rightarrow> bool) \<Rightarrow> RecordSchema list \<Rightarrow> (string \<rightharpoonup> pyval) \<Rightarrow>
   exn + (RecordSchema \<times> RecordSchema list)" where
  "create_view wellformed rows d =
     (case get_serializer ''create'' rows [] \<lparr>kw_data = Some d, kw_rest = []\<rparr> of
        Inl e \<Rightarrow> Inl e
      | Inr (args, kw) \<Rightarrow>
          (case kw_data kw of
             None \<Rightarrow> Inl ValidationError
           | Some d' \<Rightarrow> serializer_save wellformed rows d'))"

text \<open>\<open>createSchema(recordType, schemaDocument)\<close>: a create request with these two fields.\<close>

definition createSchema ::
  "(pyval \<Rightarrow> bool) \<Rightarrow> RecordSchema list \<Rightarrow> pyval \<Rightarrow> pyval \<Rightarrow>
   exn + (RecordSchema \<times> RecordSchema list)" where
  "createSchema wellformed rows rt doc =
     create_view wellformed rows [''record_type'' \<mapsto> rt, ''schema'' \<mapsto> doc]"

text \<open>Sequential creations, stopping at the first exception.\<close>

fun create_all ::
  "(pyval \<Rightarrow> bool) \<Rightarrow> RecordSchema list \<Rightarrow> (pyval \<times> pyval) list \<Rightarrow> exn + RecordSchema list" where
  "create_all wellformed rows [] = Inr rows"
| "create_all wellformed rows ((rt, doc) # rest) =
     (case createSchema wellformed rows rt doc of
        Inl e \<Rightarrow> Inl e
      | Inr (new, rows') \<Rightarrow> create_all wellformed rows' rest)"

text \<open>The rows of one record type, oldest first, and its heads.\<close>

definition of_type :: "pyval \<Rightarrow> RecordSchema list \<Rightarrow> RecordSchema list" where
  "of_type rt rows = filter (\<lambda>s. record_type s = rt) rows"

definition heads :: "pyval \<Rightarrow> RecordSchema list \<Rightarrow> RecordSchema list" where
  "heads rt rows = filter (is_head rt) rows"

text \<open>A correctly linked chain: every row points to the one after it, the last to none.\<close>

fun linked :: "RecordSchema list \<Rightarrow> bool" where
  "linked [] = True"
| "linked [s] = (next_version s = None)"
| "linked (s # t # rest) = (next_version s = Some (pk t) \<and> linked (t # rest))"

definition chain :: "RecordSchema list \<Rightarrow> bool" where
  "chain xs = (map version xs = map int [1..<Suc (length xs)] \<and> linked xs)"

text \<open>
  The state of a table built by creations only: primary keys are the positions, and the
  rows of every type form a chain with versions 1, 2, ...
\<close>

definition chain_ok :: "RecordSchema list \<Rightarrow> bool" where
  "chain_ok rows =
     (map pk rows = [0..<length rows] \<and> (\<forall>rt. chain (of_type rt rows)))"

section \<open>The interface of the schema store\<close>

text \<open>
  \<open>SchemaViewSet\<close> is a \<open>GenericViewSet\<close> with \<open>ListModelMixin\<close>, \<open>CreateModelMixin\<close>
  and \<open>RetrieveModelMixin\<close>, and \<open>RecordSchemaViewSet\<close> adds no action: these three
  actions are all it has (the comment in the source: schemas are immutable).
\<close>

definition SchemaViewSet_actions :: "string list" where
  "SchemaViewSet_actions = [''list'', ''create'', ''retrieve'']"

record request =
  req_action :: string
  req_data :: "string \<rightharpoonup> pyval"
  req_pk :: nat

datatype response =
    ListResponse "RecordSchema list"
  | DetailResponse RecordSchema
  | CreatedResponse RecordSchema
  | ErrorResponse exn
  | MethodNotAllowed

text \<open>
  One request to \<open>RecordSchemaViewSet\<close>: the response and the table afterwards. An action
  the view set does not have is refused; \<open>list\<close> and \<open>retrieve\<close> read the table;
  \<open>create\<close> is \<open>create_view\<close>, and a request that raises leaves the table as it was.
\<close>

definition dispatch ::
  "(pyval \<Rightarrow> bool) \<Rightarrow> RecordSchema list \<Rightarrow> request \<Rightarrow> response \<times> RecordSchema list" where
  "dispatch wellformed rows rq =
     (if req_action rq \<notin> set SchemaViewSet_actions then (MethodNotAllowed, rows)
      else if req_action rq = ''list'' then (ListResponse rows, rows)
      else if req_action rq = ''create'' then
        (case create_view wellformed rows (req_data rq) of
           Inl e \<Rightarrow> (ErrorResponse e, rows)
         | Inr (new, rows') \<Rightarrow> (CreatedResponse new, rows'))
      else
        (case objects_get (\<lambda>s. pk s = req_pk rq) rows of
           Inl e \<Rightarrow> (ErrorResponse e, rows)
         | Inr s \<Rightarrow> (DetailResponse s, rows)))"

text \<open>The table after a sequence of requests.\<close>

fun run :: "(pyval \<Rightarrow> bool) \<Rightarrow> RecordSchema list \<Rightarrow> request list \<Rightarrow> RecordSchema list" where
  "run wellformed rows [] = rows"
| "run wellformed rows (rq # rest) = run wellformed (snd (dispatch wellformed rows rq)) rest"

text \<open>Two rows hold the same schema document under the same key, type and version.\<close>

definition same_document :: "RecordSchema \<Rightarrow> RecordSchema \<Rightarrow> bool" where
  "same_document s s' =
     (pk s' = pk s \<and> record_type s' = record_type s \<and> version s' = version s \<and>
      schema s' = schema s)"

section \<open>Records and their queries\<close>

text \<open>
  A row of \<open>Record\<close>: primary key, the schema it is bound to (the column \<open>schema_id\<close>)
  and \<open>occurred_from\<close>, a timestamp in seconds since 1970-01-01 00:00 in the time zone
  of the database. The other fields play no part in the views modelled here.
\<close>

record Record =
  rec_pk :: nat
  schema_id :: nat
  occurred_from :: int

text \<open>
  The lookups \<open>occurred_from__hour\<close> (0 to 23) and \<open>occurred_from__week_day\<close> (1 is
  Sunday, 7 is Saturday; 1970-01-01 was a Thursday).
\<close>

definition hour :: "int \<Rightarrow> nat" where
  "hour t = nat ((t div 3600) mod 24)"

definition week_day :: "int \<Rightarrow> nat" where
  "week_day t = nat ((t div 86400 + 4) mod 7) + 1"

text \<open>
  The query parameters of a request, and a filter backend: given the request, the rows
  it retains.
\<close>

type_synonym query_params = "string \<rightharpoonup> string"

type_synonym backend = "query_params \<Rightarrow> Record \<Rightarrow> bool"

text \<open>
  The loop \<open>for backend in list(self.filter_backends): qryset =
  backend().filter_queryset(request, qryset, self)\<close>, on the rows of the query set.
\<close>

definition filter_queryset :: "backend list \<Rightarrow> query_params \<Rightarrow> Record list \<Rightarrow> Record list" where
  "filter_queryset backends request qryset =
     foldl (\<lambda>q backend. filter (backend request) q) qryset backends"

text \<open>
  The two \<open>Case\<close> expressions of \<open>toddow\<close>: the first \<open>When\<close> whose condition holds gives
  the value, and no match gives NULL.
\<close>

definition dow_case :: "Record \<Rightarrow> nat option" where
  "dow_case r = find (\<lambda>x. week_day (occurred_from r) = x) [1..<8]"

definition tod_case :: "Record \<Rightarrow> nat option" where
  "tod_case r = find (\<lambda>x. hour (occurred_from r) = x) [0..<24]"

record toddow_row =
  tod :: "nat option"
  dow :: "nat option"
  count :: nat

text \<open>Ascending order of the database on a nullable column: NULL comes last.\<close>

definition nulls_last :: "nat option \<Rightarrow> nat \<times> nat" where
  "nulls_last v = (case v of None \<Rightarrow> (1, 0) | Some x \<Rightarrow> (0, x))"

definition order_by_key :: "nat option \<times> nat option \<Rightarrow> (nat \<times> nat) \<times> (nat \<times> nat)" where
  "order_by_key g = (nulls_last (fst g), nulls_last (snd g))"

text \<open>
  \<open>RecordViewSet.toddow\<close>: \<open>values('tod', 'dow')\<close> followed by an aggregate groups the
  annotated rows by the pair, \<open>order_by('tod', 'dow')\<close> orders the groups, and
  \<open>Count('tod')\<close> counts the rows of the group whose \<open>tod\<close> is not NULL.
\<close>

definition toddow :: "backend list \<Rightarrow> query_params \<Rightarrow> Record list \<Rightarrow> toddow_row list" where
  "toddow backends request queryset =
     (let qryset = filter_queryset backends request queryset;
          annotated_recs = map (\<lambda>r. (tod_case r, dow_case r)) qryset
      in map (\<lambda>g. \<lparr>tod = fst g, dow = snd g,
                     count = length (filter (\<lambda>a. a = g \<and> fst a \<noteq> None) annotated_recs)\<rparr>)
           (sort_key order_by_key (remdups annotated_recs)))"

text \<open>The pair a record falls in, and the order of the result: by \<open>tod\<close>, then by \<open>dow\<close>.\<close>

definition group_of :: "Record \<Rightarrow> nat option \<times> nat option" where
  "group_of r = (Some (hour (occurred_from r)), Some (week_day (occurred_from r)))"

definition before :: "toddow_row \<Rightarrow> toddow_row \<Rightarrow> bool" where
  "before a b =
     (the (tod a) < the (tod b) \<or> (the (tod a) = the (tod b) \<and> the (dow a) < the (dow b)))"

text \<open>The rows that pass every backend.\<close>

definition passes :: "backend list \<Rightarrow> query_params \<Rightarrow> Record \<Rightarrow> bool" where
  "passes backends request r = list_all (\<lambda>b. b request r) backends"

section \<open>Recent counts of a record type\<close>

record RecordType =
  rt_pk :: pyval
  label :: string
  plural_label :: string

text \<open>\<open>timedelta(days=n)\<close> in seconds, and the dictionary \<open>durations\<close>.\<close>

definition timedelta_days :: "nat \<Rightarrow> int" where
  "timedelta_days n = int n * 86400"

definition durations :: "(string \<times> nat) list" where
  "durations = [(''month'', 30), (''quarter'', 90), (''year'', 365)]"

text \<open>
  \<open>schema.record_set.filter(occurred_from__lte=now, occurred_from__gte=earliest).count()\<close>
\<close>

definition window_count :: "Record list \<Rightarrow> RecordSchema \<Rightarrow> int \<Rightarrow> nat \<Rightarrow> nat" where
  "window_count recs s now days =
     (let earliest = now - timedelta_days days
      in length (filter (\<lambda>r. schema_id r = pk s \<and> occurred_from r \<le> now \<and>
                               earliest \<le> occurred_from r) recs))"

text \<open>\<open>counts[label] += count\<close>; the keys of \<open>counts\<close> are those of \<open>durations\<close>.\<close>

definition add_count :: "(string \<rightharpoonup> nat) \<Rightarrow> string \<Rightarrow> nat \<Rightarrow> (string \<rightharpoonup> nat)" where
  "add_count counts l n = counts(l \<mapsto> the (counts l) + n)"

text \<open>
  \<open>RecordTypeViewSet.recent_counts\<close>. The lookup of the record type is not guarded: its
  exception leaves the view. \<open>record_type.schemas.all()\<close> are the schema rows of the type.
\<close>

definition recent_counts ::
  "RecordType list \<Rightarrow> RecordSchema list \<Rightarrow> Record list \<Rightarrow> int \<Rightarrow> pyval \<Rightarrow>
   exn + (string \<rightharpoonup> nat)" where
  "recent_counts types rows recs now key =
     (case objects_get (\<lambda>t. rt_pk t = key) types of
        Inl e \<Rightarrow> Inl e
      | Inr rtype \<Rightarrow>
          Inr (foldl (\<lambda>counts s.
                        foldl (\<lambda>c (l, days). add_count c l (window_count recs s now days))
                          counts durations)
                 [''month'' \<mapsto> 0, ''quarter'' \<mapsto> 0, ''year'' \<mapsto> 0]
                 (of_type (rt_pk rtype) rows)))"

text \<open>The dictionary \<open>counts\<close> with given values.\<close>

definition counts_dict :: "nat \<Rightarrow> nat \<Rightarrow> nat \<Rightarrow> (string \<rightharpoonup> nat)" where
  "counts_dict a b c = [''month'' \<mapsto> a, ''quarter'' \<mapsto> b, ''year'' \<mapsto> c]"

text \<open>
  The spec's words for \<open>recentCounts\<close>: a record is in the window of \<open>days\<close> days ending
  at \<open>now\<close> when \<open>occurred_from\<close> is in the closed interval from \<open>now\<close> minus the window
  to \<open>now\<close>; the value for a window is the sum, over every schema version of the record
  type, of the number of its records in the window.
\<close>

definition in_window :: "int \<Rightarrow> nat \<Rightarrow> Record \<Rightarrow> bool" where
  "in_window now days r = (now - int days * 86400 \<le> occurred_from r \<and> occurred_from r \<le> now)"

definition recentCounts_spec :: "RecordSchema list \<Rightarrow> Record list \<Rightarrow> int \<Rightarrow> pyval \<Rightarrow> nat \<Rightarrow> nat" where
  "recentCounts_spec rows recs now key days =
     sum_list (map (\<lambda>s. length (filter (\<lambda>r. schema_id r = pk s \<and> in_window now days r) recs))
                 (of_type key rows))"

section \<open>Boundaries\<close>

record Boundary =
  b_pk :: nat
  b_label :: string

datatype body = ErrorBody "(string \<times> string) list" | BoundaryBody Boundary

datatype Response = Response body nat

text \<open>
  \<open>BoundaryViewSet.create\<close>, over the inherited \<open>create\<close>: \<open>IntegrityError\<close> becomes a
  response with status 409, any other exception leaves the method, a response is passed
  on. The inherited method returns its outcome and the table it leaves.
\<close>

definition BoundaryViewSet_create ::
  "('r \<Rightarrow> 'db \<Rightarrow> (exn + Response) \<times> 'db) \<Rightarrow> 'r \<Rightarrow> 'db \<Rightarrow> (exn + Response) \<times> 'db" where
  "BoundaryViewSet_create super_create request db =
     (case super_create request db of
        (Inl e, db') \<Rightarrow>
          (if e = IntegrityError
           then (Inr (Response (ErrorBody [(''error'', ''uniqueness constraint violation'')]) 409),
                 db')
           else (Inl e, db'))
      | (Inr resp, db') \<Rightarrow> (Inr resp, db'))"

text \<open>
  Modelled from the spec: the inherited create on the \<open>Boundary\<close> table
  (\<open>ashlar/models.py\<close>, which declares the uniqueness constraint, is not under src/). The
  spec says a boundary whose label is already stored violates a uniqueness constraint; the
  database refuses the insert with \<open>IntegrityError\<close> and writes nothing. Otherwise the row
  is stored and returned with status 201.
\<close>

definition ModelViewSet_create :: "string \<Rightarrow> Boundary list \<Rightarrow> (exn + Response) \<times> Boundary list" where
  "ModelViewSet_create l rows =
     (if l \<in> set (map b_label rows) then (Inl IntegrityError, rows)
      else (let new = \<lparr>b_pk = length rows, b_label = l\<rparr>
            in (Inr (Response (BoundaryBody new) 201), rows @ [new])))"

section \<open>Listing records, and the query diagnostic\<close>


type_synonym queryset = "(Record \<Rightarrow> bool) list"





text \<open>Example tables and request data, used to evaluate the theorems below.\<close>

definition ex_rows :: "RecordSchema list" where
  "ex_rows =
     [\<lparr>pk = 0, record_type = PStr ''incident'', version = 1, schema = PStr ''{}'',
       next_version = Some 1\<rparr>,
      \<lparr>pk = 1, record_type = PStr ''incident'', version = 2, schema = PStr ''{\"a\": 1}'',
       next_version = None\<rparr>]"

text \<open>An example validator: a document is the text of a JSON object.\<close>

definition ex_wellformed :: "pyval \<Rightarrow> bool" where
  "ex_wellformed doc = (case doc of PStr (c # rest) \<Rightarrow> c = CHR ''{'' | _ \<Rightarrow> False)"

definition ex_reqs :: "(pyval \<times> pyval) list" where
  "ex_reqs =
     [(PStr ''incident'', PStr ''{}''), (PStr ''survey'', PStr ''{\"q\": 1}''),
      (PStr ''incident'', PStr ''{\"a\": 1}''), (PStr ''incident'', PStr ''{\"a\": 2}'')]"

definition ex_data :: "string \<rightharpoonup> pyval" where
  "ex_data = [''record_type'' \<mapsto> PStr ''incident'', ''version'' \<mapsto> PInt 7,
              ''schema'' \<mapsto> PStr ''{\"b\": 2}'']"

definition ex_requests :: "request list" where
  "ex_requests =
     [\<lparr>req_action = ''create'', req_data = ex_data, req_pk = 0\<rparr>,
      \<lparr>req_action = ''list'', req_data = Map.empty, req_pk = 0\<rparr>,
      \<lparr>req_action = ''destroy'', req_data = Map.empty, req_pk = 1\<rparr>,
      \<lparr>req_action = ''update'', req_data = [''schema'' \<mapsto> PStr ''{}''], req_pk = 1\<rparr>,
      \<lparr>req_action = ''create'',
       req_data = [''record_type'' \<mapsto> PStr ''survey'', ''schema'' \<mapsto> PStr ''{}''],
       req_pk = 0\<rparr>]"

definition ex_records :: "Record list" where
  "ex_records =
     [\<lparr>rec_pk = 0, schema_id = 0, occurred_from = 345600\<rparr>,
      \<lparr>rec_pk = 1, schema_id = 1, occurred_from = 46800\<rparr>,
      \<lparr>rec_pk = 2, schema_id = 1, occurred_from = 345660\<rparr>,
      \<lparr>rec_pk = 3, schema_id = 1, occurred_from = 1000000000\<rparr>]"

text \<open>
  Records of the two versions of \<open>ex_rows\<close> and of another schema, 10, 20, 60, 200 and 400
  days before the instant 100000000, and after it.
\<close>

definition ex_recent :: "Record list" where
  "ex_recent =
     [\<lparr>rec_pk = 0, schema_id = 0, occurred_from = 99136000\<rparr>,
      \<lparr>rec_pk = 1, schema_id = 1, occurred_from = 98272000\<rparr>,
      \<lparr>rec_pk = 2, schema_id = 1, occurred_from = 94816000\<rparr>,
      \<lparr>rec_pk = 3, schema_id = 0, occurred_from = 82720000\<rparr>,
      \<lparr>rec_pk = 4, schema_id = 1, occurred_from = 65440000\<rparr>,
      \<lparr>rec_pk = 5, schema_id = 1, occurred_from = 100000005\<rparr>,
      \<lparr>rec_pk = 6, schema_id = 7, occurred_from = 99999999\<rparr>]"




definition ex_backends :: "backend list" where
  "ex_backends = [\<lambda>request r. occurred_from r < 400000]"

definition ex_types :: "RecordType list" where
  "ex_types = [\<lparr>rt_pk = PStr ''incident'', label = ''Incident'', plural_label = ''Incidents''\<rparr>]"

definition ex_boundaries :: "Boundary list" where
  "ex_boundaries = [\<lparr>b_pk = 0, b_label = ''districts''\<rparr>]"

section \<open>Lookups\<close>

lemma objects_get_single: "filter P rows = [h] \<Longrightarrow> objects_get P rows = Inr h"
  by (simp add: objects_get_def)

lemma objects_get_none: "filter P rows = [] \<Longrightarrow> objects_get P rows = Inl DoesNotExist"
  by (simp add: objects_get_def)

section \<open>The version injected by \<open>get_serializer\<close>\<close>



section \<open>Creating a schema\<close>

lemma serializer_save_head:
  "heads rt rows = [h] \<Longrightarrow> d ''record_type'' = Some rt \<Longrightarrow> d ''schema'' = Some doc \<Longrightarrow>
   d ''version'' = Some (PInt v) \<Longrightarrow> wellformed doc \<Longrightarrow>
   serializer_save wellformed rows d =
     Inr (\<lparr>pk = length rows, record_type = rt, version = v, schema = doc, next_version = None\<rparr>,
          map (link_head (pk h) (length rows)) rows @
          [\<lparr>pk = length rows, record_type = rt, version = v, schema = doc, next_version = None\<rparr>])"
  by (simp add: serializer_save_def heads_def objects_get_single Let_def)

lemma serializer_save_first:
  "heads rt rows = [] \<Longrightarrow> d ''record_type'' = Some rt \<Longrightarrow> d ''schema'' = Some doc \<Longrightarrow>
   d ''version'' = Some (PInt v) \<Longrightarrow> wellformed doc \<Longrightarrow>
   serializer_save wellformed rows d =
     Inr (\<lparr>pk = length rows, record_type = rt, version = v, schema = doc, next_version = None\<rparr>,
          rows @
          [\<lparr>pk = length rows, record_type = rt, version = v, schema = doc, next_version = None\<rparr>])"
  by (simp add: serializer_save_def heads_def objects_get_none Let_def)

lemma createSchema_head:
  assumes "heads rt rows = [h]" and wf: "wellformed doc"
  shows "createSchema wellformed rows rt doc =
     Inr (\<lparr>pk = length rows, record_type = rt, version = version h + 1, schema = doc, next_version = None\<rparr>,
          map (link_head (pk h) (length rows)) rows @
          [\<lparr>pk = length rows, record_type = rt, version = version h + 1, schema = doc, next_version = None\<rparr>])"
proof -
  have g: "get_serializer ''create'' rows []
             \<lparr>kw_data = Some [''record_type'' \<mapsto> rt, ''schema'' \<mapsto> doc], kw_rest = []\<rparr> =
           Inr ([], \<lparr>kw_data = Some [''record_type'' \<mapsto> rt, ''schema'' \<mapsto> doc,
                                      ''version'' \<mapsto> PInt (version h + 1)], kw_rest = []\<rparr>)"
    using assms by (simp add: get_serializer_def heads_def objects_get_single)
  show ?thesis
    unfolding createSchema_def create_view_def g
    by (simp add: serializer_save_head [OF assms(1)] wf)
qed

lemma createSchema_first:
  assumes "heads rt rows = []" and wf: "wellformed doc"
  shows "createSchema wellformed rows rt doc =
     Inr (\<lparr>pk = length rows, record_type = rt, version = 1, schema = doc, next_version = None\<rparr>,
          rows @
          [\<lparr>pk = length rows, record_type = rt, version = 1, schema = doc, next_version = None\<rparr>])"
proof -
  have g: "get_serializer ''create'' rows []
             \<lparr>kw_data = Some [''record_type'' \<mapsto> rt, ''schema'' \<mapsto> doc], kw_rest = []\<rparr> =
           Inr ([], \<lparr>kw_data = Some [''record_type'' \<mapsto> rt, ''schema'' \<mapsto> doc,
                                      ''version'' \<mapsto> PInt 1], kw_rest = []\<rparr>)"
    using assms by (simp add: get_serializer_def heads_def objects_get_none)
  show ?thesis
    unfolding createSchema_def create_view_def g
    by (simp add: serializer_save_first [OF assms(1)] wf)
qed

lemma linked_heads:
  "linked xs \<Longrightarrow> filter (\<lambda>s. next_version s = None) xs = (if xs = [] then [] else [last xs])"
  by (induction xs rule: linked.induct) auto

lemma heads_of_type: "heads rt rows = filter (\<lambda>s. next_version s = None) (of_type rt rows)"
  unfolding heads_def of_type_def filter_filter
  by (rule filter_cong) (auto simp: is_head_def)

lemma linked_snoc:
  "linked (xs @ [h]) \<Longrightarrow> pk h' = pk h \<Longrightarrow> next_version h' = Some (pk new) \<Longrightarrow>
   next_version new = None \<Longrightarrow> linked (xs @ [h', new])"
proof (induction xs)
  case Nil
  then show ?case by simp
next
  case (Cons x xs)
  then show ?case by (cases xs) auto
qed

lemma linked_single_snoc: "linked xs \<Longrightarrow> xs \<noteq> [] \<Longrightarrow> next_version (last xs) = None"
  by (induction xs rule: linked.induct) auto

lemma versions_last:
  "map version xs = map int [1..<Suc (length xs)] \<Longrightarrow> xs \<noteq> [] \<Longrightarrow>
   version (last xs) = int (length xs)"
proof -
  assume a: "map version xs = map int [1..<Suc (length xs)]" and ne: "xs \<noteq> []"
  have "version (last xs) = last (map version xs)"
    using ne by (simp add: last_map)
  also have "\<dots> = last (map int [1..<Suc (length xs)])"
    using a by simp
  also have "\<dots> = int (length xs)"
    using ne by (auto simp: last_map Suc_le_eq)
  finally show ?thesis .
qed

lemma chain_heads:
  "chain (of_type rt rows) \<Longrightarrow>
   heads rt rows = (if of_type rt rows = [] then [] else [last (of_type rt rows)])"
  by (simp add: heads_of_type chain_def linked_heads)

lemma versions_snoc:
  "map version xs = map int [1..<Suc (length xs)] \<Longrightarrow> version new = int (length xs) + 1 \<Longrightarrow>
   map version (xs @ [new]) = map int [1..<Suc (length (xs @ [new]))]"
  by simp

section \<open>The chain of one record type is preserved by a creation\<close>

lemma record_type_link_head [simp]: "record_type (link_head h n s) = record_type s"
  by (simp add: link_head_def)

lemma pk_link_head [simp]: "pk (link_head h n s) = pk s"
  by (simp add: link_head_def)

lemma version_link_head [simp]: "version (link_head h n s) = version s"
  by (simp add: link_head_def)

lemma schema_link_head [simp]: "schema (link_head h n s) = schema s"
  by (simp add: link_head_def)

lemma of_type_map_link: "of_type rt (map (link_head h n) rows) = map (link_head h n) (of_type rt rows)"
  by (simp add: of_type_def filter_map o_def)

lemma of_type_append: "of_type rt (xs @ ys) = of_type rt xs @ of_type rt ys"
  by (simp add: of_type_def)

lemma distinct_pk_of_type: "distinct (map pk rows) \<Longrightarrow> distinct (map pk (of_type rt rows))"
  by (simp add: of_type_def distinct_map_filter)

lemma map_link_other:
  "\<forall>s \<in> set xs. pk s \<noteq> h \<Longrightarrow> map (link_head h n) xs = xs"
  by (induction xs) (auto simp: link_head_def)

lemma of_type_link_other:
  assumes d: "distinct (map pk rows)" and h: "h \<in> set rows" and ne: "record_type h \<noteq> rt'"
  shows "of_type rt' (map (link_head (pk h) n) rows) = of_type rt' rows"
proof -
  have "\<forall>s \<in> set (of_type rt' rows). pk s \<noteq> pk h"
  proof
    fix s assume s: "s \<in> set (of_type rt' rows)"
    then have "s \<in> set rows" and "record_type s = rt'" by (auto simp: of_type_def)
    with ne have "s \<noteq> h" by auto
    from d have "inj_on pk (set rows)" by (simp add: distinct_map)
    with \<open>s \<in> set rows\<close> h \<open>s \<noteq> h\<close> show "pk s \<noteq> pk h" by (auto dest: inj_onD)
  qed
  then show ?thesis by (simp add: of_type_map_link map_link_other)
qed

lemma of_type_link_same:
  assumes d: "distinct (map pk rows)" and e: "of_type rt rows = xs @ [h]"
  shows "of_type rt (map (link_head (pk h) n) rows) = xs @ [h\<lparr>next_version := Some n\<rparr>]"
proof -
  from d have "distinct (map pk (xs @ [h]))"
    using distinct_pk_of_type [of rows rt] e by simp
  then have "\<forall>s \<in> set xs. pk s \<noteq> pk h" by (auto simp: image_iff)
  then have "map (link_head (pk h) n) xs = xs" by (rule map_link_other)
  then show ?thesis by (simp add: of_type_map_link e link_head_def)
qed

lemma chain_ok_pks: "chain_ok rows \<Longrightarrow> distinct (map pk rows)"
  by (simp add: chain_ok_def)

lemma chain_ok_createSchema:
  assumes ok: "chain_ok rows" and wf: "wellformed doc"
  shows "\<exists>new rows'. createSchema wellformed rows rt doc = Inr (new, rows') \<and>
           chain_ok rows' \<and>
           (\<forall>rt'. rt' \<noteq> rt \<longrightarrow> of_type rt' rows' = of_type rt' rows) \<and>
           length (of_type rt rows') = Suc (length (of_type rt rows))"
proof (cases "of_type rt rows = []")
  case True
  let ?new = "\<lparr>pk = length rows, record_type = rt, version = 1, schema = doc,
                next_version = None\<rparr>"
  from ok have ch: "chain (of_type rt rows)" by (simp add: chain_ok_def)
  then have "heads rt rows = []" using True by (simp add: chain_heads)
  then have c: "createSchema wellformed rows rt doc = Inr (?new, rows @ [?new])"
    using wf by (rule createSchema_first)
  have pks: "map pk (rows @ [?new]) = [0..<length (rows @ [?new])]"
    using ok by (simp add: chain_ok_def)
  have others: "of_type rt' (rows @ [?new]) = of_type rt' rows" if "rt' \<noteq> rt" for rt'
    using that by (simp add: of_type_def)
  have same: "of_type rt (rows @ [?new]) = [?new]"
    using True by (simp add: of_type_def)
  have "chain (of_type rt' (rows @ [?new]))" for rt'
  proof (cases "rt' = rt")
    case True
    then show ?thesis by (simp add: same chain_def)
  next
    case False
    then show ?thesis using ok by (simp add: others chain_ok_def)
  qed
  with pks have "chain_ok (rows @ [?new])" by (simp only: chain_ok_def simp_thms)
  with c True others same show ?thesis by simp
next
  case False
  from ok have ch: "chain (of_type rt rows)" by (simp add: chain_ok_def)
  define h where "h = last (of_type rt rows)"
  define xs where "xs = butlast (of_type rt rows)"
  have e: "of_type rt rows = xs @ [h]"
    using False by (simp add: h_def xs_def)
  have hd: "heads rt rows = [h]" using ch False by (simp add: chain_heads h_def)
  have hv: "version h = int (length (of_type rt rows))"
    using ch False by (simp add: chain_def versions_last h_def)
  have "h \<in> set (of_type rt rows)" by (simp add: e)
  then have hin: "h \<in> set rows" and hrt: "record_type h = rt"
    by (simp_all add: of_type_def)
  let ?h' = "h\<lparr>next_version := Some (length rows)\<rparr>"
  let ?new = "\<lparr>pk = length rows, record_type = rt, version = version h + 1, schema = doc,
                next_version = None\<rparr>"
  let ?rows' = "map (link_head (pk h) (length rows)) rows @ [?new]"
  have c: "createSchema wellformed rows rt doc = Inr (?new, ?rows')"
    using hd wf by (rule createSchema_head)
  have d: "distinct (map pk rows)" using ok by (rule chain_ok_pks)
  have pks: "map pk ?rows' = [0..<length ?rows']"
    using ok by (simp add: chain_ok_def o_def)
  have tn: "of_type rt' [?new] = (if rt' = rt then [?new] else [])" for rt'
    by (auto simp: of_type_def)
  have others: "of_type rt' ?rows' = of_type rt' rows" if "rt' \<noteq> rt" for rt'
  proof -
    from that hrt have "record_type h \<noteq> rt'" by simp
    from of_type_link_other [OF d hin this] that show ?thesis
      by (simp add: of_type_append tn)
  qed
  have same: "of_type rt ?rows' = xs @ [?h', ?new]"
    using of_type_link_same [OF d e] by (simp add: of_type_append tn)
  have "linked (xs @ [h])" using ch e by (simp add: chain_def)
  then have l: "linked (xs @ [?h', ?new])"
    by (rule linked_snoc) simp_all
  have "map version (xs @ [h]) = map int [1..<Suc (length (xs @ [h]))]"
    using ch e by (simp add: chain_def)
  moreover have "version h = int (length xs) + 1" using hv e by simp
  ultimately have v: "map version (xs @ [?h', ?new]) =
           map int [1..<Suc (length (xs @ [?h', ?new]))]"
    by simp
  have "chain (of_type rt' ?rows')" for rt'
  proof (cases "rt' = rt")
    case True
    then show ?thesis using l v by (simp only: same chain_def simp_thms)
  next
    case False
    then show ?thesis using ok by (simp add: others chain_ok_def)
  qed
  with pks have cok: "chain_ok ?rows'" by (simp only: chain_ok_def simp_thms)
  have len: "length (of_type rt ?rows') = Suc (length (of_type rt rows))"
    by (simp only: same e) simp
  from c cok others len show ?thesis by blast
qed

lemma is_head_link_head: "is_head rt (link_head k n s) = (is_head rt s \<and> pk s \<noteq> k)"
  by (auto simp: is_head_def link_head_def)

lemma heads_append: "heads rt (xs @ ys) = heads rt xs @ heads rt ys"
  by (simp add: heads_def)

lemma heads_map_link:
  "heads rt (map (link_head k n) rows) =
   map (link_head k n) (filter (\<lambda>s. is_head rt s \<and> pk s \<noteq> k) rows)"
  by (simp add: heads_def filter_map o_def is_head_link_head)

lemma length_heads_map_link:
  "length (heads rt (map (link_head k n) rows)) \<le> length (heads rt rows)"
proof -
  have "length (filter (\<lambda>s. is_head rt s \<and> pk s \<noteq> k) rows) \<le> length (filter (is_head rt) rows)"
    by (induction rows) auto
  then show ?thesis by (simp only: heads_map_link length_map) (simp add: heads_def)
qed

lemma heads_map_link_head:
  assumes "heads rt rows = [h]"
  shows "heads rt (map (link_head (pk h) n) rows) = []"
proof -
  have "filter (\<lambda>s. is_head rt s \<and> pk s \<noteq> pk h) rows =
        filter (\<lambda>s. pk s \<noteq> pk h) (heads rt rows)"
    by (simp add: heads_def conj_commute)
  then show ?thesis by (simp add: heads_map_link assms)
qed

lemma heads_single:
  "heads rt [s] = (if record_type s = rt \<and> next_version s = None then [s] else [])"
  by (simp add: heads_def is_head_def)

lemma create_all_chain_ok:
  "chain_ok rows \<Longrightarrow> list_all (\<lambda>r. wellformed (snd r)) reqs \<Longrightarrow>
   \<exists>rows'. create_all wellformed rows reqs = Inr rows' \<and> chain_ok rows' \<and>
     (\<forall>rt. length (of_type rt rows') =
        length (of_type rt rows) + length (filter (\<lambda>r. fst r = rt) reqs))"
proof (induction reqs arbitrary: rows)
  case Nil
  then show ?case by simp
next
  case (Cons r reqs)
  obtain rt doc where r: "r = (rt, doc)" by (cases r)
  from Cons.prems(2) r have wf: "wellformed doc" and wfs: "list_all (\<lambda>r. wellformed (snd r)) reqs"
    by simp_all
  from chain_ok_createSchema [OF Cons.prems(1), of wellformed doc rt, OF wf]
  obtain new rows1 where c: "createSchema wellformed rows rt doc = Inr (new, rows1)"
    and ok1: "chain_ok rows1"
    and oth: "\<forall>rt'. rt' \<noteq> rt \<longrightarrow> of_type rt' rows1 = of_type rt' rows"
    and len: "length (of_type rt rows1) = Suc (length (of_type rt rows))"
    by blast
  from Cons.IH [OF ok1 wfs]
  obtain rows' where a: "create_all wellformed rows1 reqs = Inr rows'" and ok': "chain_ok rows'"
    and l': "\<forall>rt. length (of_type rt rows') =
        length (of_type rt rows1) + length (filter (\<lambda>r. fst r = rt) reqs)"
    by blast
  have "length (of_type rt' rows') =
        length (of_type rt' rows) + length (filter (\<lambda>r. fst r = rt') (r # reqs))" for rt'
  proof (cases "rt' = rt")
    case True
    then show ?thesis using l' len r by simp
  next
    case False
    then show ?thesis using l' oth r by simp
  qed
  with a ok' c r show ?case by simp
qed

lemma chain_ok_Nil: "chain_ok []"
  by (simp add: chain_ok_def of_type_def chain_def)


text \<open>A malformed document is refused, whatever the table holds for the type.\<close>

lemma createSchema_malformed:
  assumes "\<not> wellformed doc"
  shows "\<exists>e. createSchema wellformed rows rt doc = Inl e"
  using assms
  by (auto simp: createSchema_def create_view_def get_serializer_def serializer_save_def
      split: sum.splits)

text \<open>
  Claim C1. A creation looks up the head of the record type (the row whose
  \<open>next_version\<close> is null). For a well-formed document: with a head \<open>h\<close>, the new row has
  version \<open>version h + 1\<close>, \<open>h\<close> is stored with its \<open>next_version\<close> set to the new row,
  and the new row is the head; without a head the new row has version 1. Sequential
  creations of well-formed documents on a table built by creations succeed, and the rows
  of each type then carry the versions 1, 2, ..., one more per creation for the type, and
  are correctly linked.
\<close>

theorem createSchema_versions:
  "(heads rt rows = [h] \<and> wellformed doc \<longrightarrow>
      (\<exists>new rows'. createSchema wellformed rows rt doc = Inr (new, rows') \<and>
         version new = version h + 1 \<and> record_type new = rt \<and> schema new = doc \<and>
         h\<lparr>next_version := Some (pk new)\<rparr> \<in> set rows' \<and> heads rt rows' = [new])) \<and>
   (heads rt rows0 = [] \<and> wellformed doc \<longrightarrow>
      (\<exists>new. createSchema wellformed rows0 rt doc = Inr (new, rows0 @ [new]) \<and>
         version new = 1 \<and> record_type new = rt \<and> schema new = doc \<and>
         heads rt (rows0 @ [new]) = [new])) \<and>
   (chain_ok rows1 \<and> list_all (\<lambda>r. wellformed (snd r)) reqs \<longrightarrow>
      (\<exists>rows'. create_all wellformed rows1 reqs = Inr rows' \<and>
         length (of_type rt rows') =
           length (of_type rt rows1) + length (filter (\<lambda>r. fst r = rt) reqs) \<and>
         map version (of_type rt rows') = map int [1..<Suc (length (of_type rt rows'))] \<and>
         linked (of_type rt rows')))"
proof (intro conjI impI)
  assume "heads rt rows = [h] \<and> wellformed doc"
  then have hd: "heads rt rows = [h]" and wf: "wellformed doc" by simp_all
  let ?new = "\<lparr>pk = length rows, record_type = rt, version = version h + 1, schema = doc,
                next_version = None\<rparr>"
  let ?rows' = "map (link_head (pk h) (length rows)) rows @ [?new]"
  have c: "createSchema wellformed rows rt doc = Inr (?new, ?rows')"
    using hd wf by (rule createSchema_head)
  have "h \<in> set (heads rt rows)" by (simp add: hd)
  then have "h \<in> set rows" by (simp add: heads_def)
  then have "link_head (pk h) (length rows) h \<in> set ?rows'" by simp
  then have m: "h\<lparr>next_version := Some (pk ?new)\<rparr> \<in> set ?rows'"
    by (simp add: link_head_def)
  have hs: "heads rt ?rows' = [?new]"
    by (simp add: heads_append heads_map_link_head [OF hd] heads_single)
  from c m hs show "\<exists>new rows'. createSchema wellformed rows rt doc = Inr (new, rows') \<and>
         version new = version h + 1 \<and> record_type new = rt \<and> schema new = doc \<and>
         h\<lparr>next_version := Some (pk new)\<rparr> \<in> set rows' \<and> heads rt rows' = [new]"
    by (intro exI [of _ ?new] exI [of _ ?rows']) simp
next
  assume "heads rt rows0 = [] \<and> wellformed doc"
  then have hd: "heads rt rows0 = []" and wf: "wellformed doc" by simp_all
  let ?new = "\<lparr>pk = length rows0, record_type = rt, version = 1, schema = doc,
                next_version = None\<rparr>"
  have c: "createSchema wellformed rows0 rt doc = Inr (?new, rows0 @ [?new])"
    using hd wf by (rule createSchema_first)
  have hs: "heads rt (rows0 @ [?new]) = [?new]"
    by (simp add: heads_append hd heads_single)
  from c hs show "\<exists>new. createSchema wellformed rows0 rt doc = Inr (new, rows0 @ [new]) \<and>
         version new = 1 \<and> record_type new = rt \<and> schema new = doc \<and>
         heads rt (rows0 @ [new]) = [new]"
    by (intro exI [of _ ?new]) simp
next
  assume "chain_ok rows1 \<and> list_all (\<lambda>r. wellformed (snd r)) reqs"
  then have ok: "chain_ok rows1" and wfs: "list_all (\<lambda>r. wellformed (snd r)) reqs"
    by simp_all
  from create_all_chain_ok [OF ok wfs]
  obtain rows' where a: "create_all wellformed rows1 reqs = Inr rows'" and ok': "chain_ok rows'"
    and l: "\<forall>rt. length (of_type rt rows') =
        length (of_type rt rows1) + length (filter (\<lambda>r. fst r = rt) reqs)"
    by blast
  from ok' have "chain (of_type rt rows')" by (simp add: chain_ok_def)
  with a l show "\<exists>rows'. create_all wellformed rows1 reqs = Inr rows' \<and>
         length (of_type rt rows') =
           length (of_type rt rows1) + length (filter (\<lambda>r. fst r = rt) reqs) \<and>
         map version (of_type rt rows') = map int [1..<Suc (length (of_type rt rows'))] \<and>
         linked (of_type rt rows')"
    by (simp add: chain_def)
qed

theorem createSchema_versions_witness:
  "heads (PStr ''incident'') ex_rows = [ex_rows ! 1] \<and>
   ex_wellformed (PStr ''{}'') \<and>
   heads (PStr ''incident'') [] = [] \<and>
   chain_ok [] \<and>
   list_all (\<lambda>r. ex_wellformed (snd r)) ex_reqs \<and>
   (\<exists>new rows'. createSchema ex_wellformed ex_rows (PStr ''incident'') (PStr ''{}'') =
        Inr (new, rows') \<and>
      version new = version (ex_rows ! 1) + 1 \<and> record_type new = PStr ''incident'' \<and>
      schema new = PStr ''{}'' \<and>
      (ex_rows ! 1)\<lparr>next_version := Some (pk new)\<rparr> \<in> set rows' \<and>
      heads (PStr ''incident'') rows' = [new]) \<and>
   (\<exists>new. createSchema ex_wellformed [] (PStr ''incident'') (PStr ''{}'') =
        Inr (new, [] @ [new]) \<and>
      version new = 1 \<and> record_type new = PStr ''incident'' \<and> schema new = PStr ''{}'' \<and>
      heads (PStr ''incident'') ([] @ [new]) = [new]) \<and>
   (\<exists>rows'. create_all ex_wellformed [] ex_reqs = Inr rows' \<and>
      length (of_type (PStr ''incident'') rows') =
        length (of_type (PStr ''incident'') []) +
        length (filter (\<lambda>r. fst r = PStr ''incident'') ex_reqs) \<and>
      map version (of_type (PStr ''incident'') rows') =
        map int [1..<Suc (length (of_type (PStr ''incident'') rows'))] \<and>
      linked (of_type (PStr ''incident'') rows'))"
proof -
  have h1: "heads (PStr ''incident'') ex_rows = [ex_rows ! 1]"
    by (simp add: heads_def is_head_def ex_rows_def)
  have w1: "ex_wellformed (PStr ''{}'')"
    by (simp add: ex_wellformed_def)
  have h2: "heads (PStr ''incident'') [] = []"
    by (simp add: heads_def)
  have h3: "chain_ok []"
    by (rule chain_ok_Nil)
  have w3: "list_all (\<lambda>r. ex_wellformed (snd r)) ex_reqs"
    by (simp add: ex_reqs_def ex_wellformed_def)
  note t = createSchema_versions [where rt = "PStr ''incident''" and rows = ex_rows
      and h = "ex_rows ! 1" and doc = "PStr ''{}''" and ?rows0.0 = "[]" and ?rows1.0 = "[]"
      and reqs = ex_reqs and wellformed = ex_wellformed]
  from t h1 w1 h2 h3 w3 show ?thesis by blast
qed

section \<open>Head uniqueness\<close>

lemma objects_get_Inr: "objects_get P rows = Inr h \<Longrightarrow> filter P rows = [h]"
  by (auto simp: objects_get_def split: list.splits if_splits)

lemma objects_get_DoesNotExist: "objects_get P rows = Inl DoesNotExist \<Longrightarrow> filter P rows = []"
  by (auto simp: objects_get_def split: list.splits if_splits)

lemma serializer_save_cases:
  assumes "serializer_save wellformed rows d = Inr (new, rows')"
  shows "next_version new = None \<and> pk new = length rows \<and>
         ((heads (record_type new) rows = [] \<and> rows' = rows @ [new]) \<or>
          (\<exists>h. heads (record_type new) rows = [h] \<and>
               rows' = map (link_head (pk h) (length rows)) rows @ [new]))"
proof -
  from assms obtain rt doc v where rt: "d ''record_type'' = Some rt"
    and doc: "d ''schema'' = Some doc" and v: "d ''version'' = Some (PInt v)"
    by (auto simp: serializer_save_def split: option.splits pyval.splits)
  let ?new = "\<lparr>pk = length rows, record_type = rt, version = v, schema = doc,
                next_version = None\<rparr>"
  show ?thesis
  proof (cases "objects_get (is_head rt) rows")
    case (Inl e)
    with assms rt doc v have e: "e = DoesNotExist" and r: "new = ?new" "rows' = rows @ [?new]"
      by (auto simp: serializer_save_def Let_def split: if_splits)
    from Inl e have "heads rt rows = []"
      by (simp add: heads_def objects_get_DoesNotExist)
    with r show ?thesis by simp
  next
    case (Inr h)
    with assms rt doc v have r: "new = ?new"
      "rows' = map (link_head (pk h) (length rows)) rows @ [?new]"
      by (auto simp: serializer_save_def Let_def split: if_splits)
    from Inr have "heads rt rows = [h]"
      by (simp add: heads_def objects_get_Inr)
    with r show ?thesis by simp
  qed
qed

lemma create_view_save:
  "create_view wellformed rows d = Inr r \<Longrightarrow> \<exists>d'. serializer_save wellformed rows d' = Inr r"
  by (auto simp: create_view_def split: sum.splits option.splits)

lemma create_view_cases:
  assumes "create_view wellformed rows d = Inr (new, rows')"
  shows "next_version new = None \<and> pk new = length rows \<and>
         ((heads (record_type new) rows = [] \<and> rows' = rows @ [new]) \<or>
          (\<exists>h. heads (record_type new) rows = [h] \<and>
               rows' = map (link_head (pk h) (length rows)) rows @ [new]))"
  using create_view_save [OF assms] serializer_save_cases by blast

text \<open>What a request can do to the table.\<close>

lemma dispatch_cases:
  "snd (dispatch wellformed rows rq) = rows \<or>
   (\<exists>new rows'. create_view wellformed rows (req_data rq) = Inr (new, rows') \<and> snd (dispatch wellformed rows rq) = rows')"
  by (auto simp: dispatch_def split: sum.splits)

lemma heads_after_create:
  assumes c: "create_view wellformed rows d = Inr (new, rows')"
    and u: "length (heads rt rows) \<le> 1"
  shows "length (heads rt rows') \<le> 1"
proof -
  from create_view_cases [OF c] have nn: "next_version new = None"
    and sh: "(heads (record_type new) rows = [] \<and> rows' = rows @ [new]) \<or>
          (\<exists>h. heads (record_type new) rows = [h] \<and>
               rows' = map (link_head (pk h) (length rows)) rows @ [new])"
    by auto
  from sh show ?thesis
  proof
    assume a: "heads (record_type new) rows = [] \<and> rows' = rows @ [new]"
    show ?thesis
    proof (cases "rt = record_type new")
      case True
      with a show ?thesis by (simp add: heads_append heads_single)
    next
      case False
      with a u show ?thesis by (simp add: heads_append heads_single)
    qed
  next
    assume "\<exists>h. heads (record_type new) rows = [h] \<and>
               rows' = map (link_head (pk h) (length rows)) rows @ [new]"
    then obtain h where h: "heads (record_type new) rows = [h]"
      and r: "rows' = map (link_head (pk h) (length rows)) rows @ [new]" by blast
    show ?thesis
    proof (cases "rt = record_type new")
      case True
      with r heads_map_link_head [OF h, of "length rows"] show ?thesis
        by (simp add: heads_append heads_single)
    next
      case False
      have "length (heads rt (map (link_head (pk h) (length rows)) rows)) \<le> 1"
        using length_heads_map_link [of rt "pk h" "length rows" rows] u by simp
      with False r show ?thesis by (simp add: heads_append heads_single)
    qed
  qed
qed

lemma heads_after_dispatch:
  assumes "\<forall>rt. length (heads rt rows) \<le> 1"
  shows "\<forall>rt. length (heads rt (snd (dispatch wellformed rows rq))) \<le> 1"
  using dispatch_cases [of wellformed rows rq] assms heads_after_create by metis

text \<open>
  Claim C2. If every record type has at most one row whose \<open>next_version\<close> is null,
  this is still so after any sequence of requests to the schema interface, creations
  included. The empty table is such a table, so it holds at every point of any history.
\<close>

theorem head_unique:
  "(\<forall>rt. length (heads rt rows) \<le> 1) \<Longrightarrow> length (heads rt (run wellformed rows rqs)) \<le> 1"
proof (induction rqs arbitrary: rows)
  case Nil
  then show ?case by simp
next
  case (Cons rq rqs)
  from heads_after_dispatch [OF Cons.prems]
  have "\<forall>rt. length (heads rt (snd (dispatch wellformed rows rq))) \<le> 1" .
  from Cons.IH [OF this] show ?case by simp
qed

theorem head_unique_witness:
  "(\<forall>rt. length (heads rt ex_rows) \<le> 1) \<and>
   length (heads (PStr ''incident'') (run ex_wellformed ex_rows ex_requests)) \<le> 1"
proof -
  have h: "\<forall>rt. length (heads rt ex_rows) \<le> 1"
    by (simp add: heads_def is_head_def ex_rows_def)
  from head_unique [OF h, of "PStr ''incident''" ex_wellformed ex_requests] h show ?thesis by simp
qed

section \<open>Stored schemas are never changed or removed\<close>

lemma same_document_refl: "same_document s s"
  by (simp add: same_document_def)

lemma same_document_trans: "same_document a b \<Longrightarrow> same_document b c \<Longrightarrow> same_document a c"
  by (simp add: same_document_def)

lemma same_document_link_head: "same_document s (link_head k n s)"
  by (simp add: same_document_def)

lemma kept_after_create:
  assumes c: "create_view wellformed rows d = Inr (new, rows')" and i: "i < length rows"
  shows "i < length rows' \<and> same_document (rows ! i) (rows' ! i)"
proof -
  from create_view_cases [OF c]
  have "(heads (record_type new) rows = [] \<and> rows' = rows @ [new]) \<or>
        (\<exists>h. heads (record_type new) rows = [h] \<and>
             rows' = map (link_head (pk h) (length rows)) rows @ [new])"
    by simp
  then show ?thesis
  proof (elim disjE exE conjE)
    assume "rows' = rows @ [new]"
    with i show ?thesis by (simp add: nth_append same_document_refl)
  next
    fix h assume "rows' = map (link_head (pk h) (length rows)) rows @ [new]"
    with i show ?thesis by (simp add: nth_append same_document_link_head)
  qed
qed

lemma kept_after_dispatch:
  assumes i: "i < length rows"
  shows "i < length (snd (dispatch wellformed rows rq)) \<and>
         same_document (rows ! i) (snd (dispatch wellformed rows rq) ! i)"
  using dispatch_cases [of wellformed rows rq] kept_after_create [OF _ i] i same_document_refl
  by metis

lemma kept_after_run:
  "i < length rows \<Longrightarrow>
   i < length (run wellformed rows rqs) \<and> same_document (rows ! i) (run wellformed rows rqs ! i)"
proof (induction rqs arbitrary: rows)
  case Nil
  then show ?case by (simp add: same_document_refl)
next
  case (Cons rq rqs)
  from kept_after_dispatch [OF Cons.prems, of wellformed rq]
  have a: "i < length (snd (dispatch wellformed rows rq))"
    and b: "same_document (rows ! i) (snd (dispatch wellformed rows rq) ! i)" by simp_all
  from Cons.IH [OF a] have "i < length (run wellformed (snd (dispatch wellformed rows rq)) rqs)"
    and "same_document (snd (dispatch wellformed rows rq) ! i) (run wellformed (snd (dispatch wellformed rows rq)) rqs ! i)"
    by simp_all
  with b show ?case by (auto intro: same_document_trans)
qed

text \<open>
  Claim C8. The schema interface has the actions list, create and retrieve only: any
  other action is refused and leaves the table alone. Whatever requests are made, every
  stored row stays in its place with the same key, record type, version and schema
  document (only its \<open>next_version\<close> link may be set).
\<close>

theorem schemas_immutable:
  "(req_action rq \<notin> {''list'', ''create'', ''retrieve''} \<longrightarrow>
      dispatch wellformed rows rq = (MethodNotAllowed, rows)) \<and>
   (i < length rows \<longrightarrow>
      i < length (run wellformed rows rqs) \<and> pk (run wellformed rows rqs ! i) = pk (rows ! i) \<and>
      record_type (run wellformed rows rqs ! i) = record_type (rows ! i) \<and>
      version (run wellformed rows rqs ! i) = version (rows ! i) \<and>
      schema (run wellformed rows rqs ! i) = schema (rows ! i))"
proof (intro conjI impI)
  assume "req_action rq \<notin> {''list'', ''create'', ''retrieve''}"
  then show "dispatch wellformed rows rq = (MethodNotAllowed, rows)"
    by (simp add: dispatch_def SchemaViewSet_actions_def)
next
  assume i: "i < length rows"
  from kept_after_run [OF i, of wellformed rqs]
  show "i < length (run wellformed rows rqs)" and "pk (run wellformed rows rqs ! i) = pk (rows ! i)"
    and "record_type (run wellformed rows rqs ! i) = record_type (rows ! i)"
    and "version (run wellformed rows rqs ! i) = version (rows ! i)"
    and "schema (run wellformed rows rqs ! i) = schema (rows ! i)"
    by (simp_all add: same_document_def)
qed

theorem schemas_immutable_witness:
  "req_action (ex_requests ! 2) \<notin> {''list'', ''create'', ''retrieve''} \<and>
   dispatch ex_wellformed ex_rows (ex_requests ! 2) = (MethodNotAllowed, ex_rows) \<and>
   (1::nat) < length ex_rows \<and>
   1 < length (run ex_wellformed ex_rows ex_requests) \<and>
   schema (run ex_wellformed ex_rows ex_requests ! 1) = schema (ex_rows ! 1)"
proof -
  have a: "req_action (ex_requests ! 2) \<notin> {''list'', ''create'', ''retrieve''}"
    by (simp add: ex_requests_def)
  have b: "(1::nat) < length ex_rows"
    by (simp add: ex_rows_def)
  from schemas_immutable [where rq = "ex_requests ! 2" and rows = ex_rows and i = 1
      and rqs = ex_requests and wellformed = ex_wellformed] a b
  show ?thesis by simp
qed

section \<open>Time of day and day of week\<close>

lemma find_eq: "n \<in> set xs \<Longrightarrow> find (\<lambda>x. n = x) xs = Some n"
  by (induction xs) auto

lemma hour_lt: "hour t < 24"
  by (simp add: hour_def nat_less_iff)

lemma week_day_range: "1 \<le> week_day t \<and> week_day t \<le> 7"
proof -
  have "(t div 86400 + 4) mod 7 < 7" by simp
  then have "nat ((t div 86400 + 4) mod 7) < 7" by (simp add: nat_less_iff)
  then show ?thesis by (simp add: week_day_def)
qed

lemma tod_case_eq: "tod_case r = Some (hour (occurred_from r))"
  unfolding tod_case_def by (rule find_eq) (simp add: hour_lt)

lemma dow_case_eq: "dow_case r = Some (week_day (occurred_from r))"
  unfolding dow_case_def using week_day_range [of "occurred_from r"]
  by (intro find_eq) simp

lemma filter_queryset_eq:
  "filter_queryset backends request qryset = filter (passes backends request) qryset"
proof (induction backends arbitrary: qryset)
  case Nil
  then show ?case by (simp add: filter_queryset_def passes_def)
next
  case (Cons b backends)
  have "filter_queryset (b # backends) request qryset =
        filter_queryset backends request (filter (b request) qryset)"
    by (simp add: filter_queryset_def)
  also have "\<dots> = filter (passes backends request) (filter (b request) qryset)"
    by (rule Cons.IH)
  also have "\<dots> = filter (passes (b # backends) request) qryset"
    unfolding filter_filter by (rule filter_cong) (auto simp: passes_def)
  finally show ?case .
qed

lemma sorted_wrt_distinct:
  "sorted_wrt P xs \<Longrightarrow> distinct xs \<Longrightarrow> sorted_wrt (\<lambda>x y. P x y \<and> x \<noteq> y) xs"
  by (induction xs) auto

lemma toddow_eq:
  "toddow backends request queryset =
     map (\<lambda>g. \<lparr>tod = fst g, dow = snd g,
                 count = length (filter (\<lambda>r. group_of r = g)
                                   (filter (passes backends request) queryset))\<rparr>)
       (sort_key order_by_key
          (remdups (map group_of (filter (passes backends request) queryset))))"
proof -
  have a: "(\<lambda>r. (tod_case r, dow_case r)) = group_of"
    by (rule ext) (simp add: tod_case_eq dow_case_eq group_of_def)
  have b: "((\<lambda>a. a = g \<and> fst a \<noteq> None) \<circ> group_of) = (\<lambda>r. group_of r = g)" for g
    by (rule ext) (auto simp: group_of_def)
  show ?thesis
    unfolding toddow_def Let_def filter_queryset_eq a length_filter_map b ..
qed

lemma order_by_key_before:
  assumes "x = (Some h, Some d)" "y = (Some h', Some d')"
    and "order_by_key x \<le> order_by_key y" and "x \<noteq> y"
  shows "h < h' \<or> (h = h' \<and> d < d')"
  using assms by (auto simp: order_by_key_def nulls_last_def)


text \<open>
  Claim C3. \<open>toddow\<close> keeps the records that pass every filter backend. Every row of the
  result is a pair of an hour of day (0 to 23) and a day of week (1 to 7) with the number
  of kept records that fall in it, which is never zero; the pairs of the result are
  exactly the pairs observed among the kept records; and the rows are in strictly
  ascending order of hour, then day of week, so no pair appears twice.
\<close>

theorem toddow_groups:
  "(\<forall>g \<in> set (toddow backends request queryset).
      \<exists>h d. tod g = Some h \<and> dow g = Some d \<and> h < 24 \<and> 1 \<le> d \<and> d \<le> 7 \<and>
        count g = length (filter (\<lambda>r. passes backends request r \<and>
                                     hour (occurred_from r) = h \<and>
                                     week_day (occurred_from r) = d) queryset) \<and>
        0 < count g) \<and>
   set (map (\<lambda>g. (tod g, dow g)) (toddow backends request queryset)) =
     (\<lambda>r. (Some (hour (occurred_from r)), Some (week_day (occurred_from r)))) `
       {r \<in> set queryset. passes backends request r} \<and>
   sorted_wrt before (toddow backends request queryset)"
proof -
  define recs where "recs = filter (passes backends request) queryset"
  define ys where "ys = sort_key order_by_key (remdups (map group_of recs))"
  define mk where "mk = (\<lambda>g. \<lparr>tod = fst g, dow = snd g,
                 count = length (filter (\<lambda>r. group_of r = g) recs)\<rparr>)"
  have res: "toddow backends request queryset = map mk ys"
    by (simp add: toddow_eq recs_def ys_def mk_def)
  have sys: "set ys = group_of ` set recs"
    by (simp add: ys_def)
  have p1: "\<exists>h d. tod g = Some h \<and> dow g = Some d \<and> h < 24 \<and> 1 \<le> d \<and> d \<le> 7 \<and>
        count g = length (filter (\<lambda>r. passes backends request r \<and>
                                     hour (occurred_from r) = h \<and>
                                     week_day (occurred_from r) = d) queryset) \<and>
        0 < count g" if "g \<in> set (map mk ys)" for g
  proof -
    from that sys obtain r where r: "r \<in> set recs" and g: "g = mk (group_of r)" by auto
    let ?h = "hour (occurred_from r)" and ?d = "week_day (occurred_from r)"
    have f: "filter (\<lambda>r'. group_of r' = group_of r) recs =
          filter (\<lambda>r. passes backends request r \<and>
                       hour (occurred_from r) = ?h \<and> week_day (occurred_from r) = ?d) queryset"
      unfolding recs_def filter_filter by (rule filter_cong) (auto simp: group_of_def)
    have "r \<in> set (filter (\<lambda>r'. group_of r' = group_of r) recs)" using r by simp
    then have pos: "0 < length (filter (\<lambda>r'. group_of r' = group_of r) recs)"
      by (rule length_pos_if_in_set)
    have "tod g = Some ?h" "dow g = Some ?d" by (simp_all add: g mk_def group_of_def)
    moreover have "count g = length (filter (\<lambda>r'. group_of r' = group_of r) recs)"
      by (simp add: g mk_def)
    ultimately show ?thesis
      using pos hour_lt [of "occurred_from r"] week_day_range [of "occurred_from r"]
      unfolding f by (intro exI [of _ ?h] exI [of _ ?d]) simp
  qed
  have "map (\<lambda>g. (tod g, dow g)) (map mk ys) = ys"
    by (simp add: mk_def o_def)
  then have p2: "set (map (\<lambda>g. (tod g, dow g)) (map mk ys)) =
     (\<lambda>r. (Some (hour (occurred_from r)), Some (week_day (occurred_from r)))) `
       {r \<in> set queryset. passes backends request r}"
    using sys by (simp add: recs_def group_of_def [abs_def])
  have "sorted (map order_by_key ys)" by (simp add: ys_def)
  then have "sorted_wrt (\<lambda>x y. order_by_key x \<le> order_by_key y) ys"
    by (simp add: sorted_map)
  moreover have "distinct ys" by (simp add: ys_def)
  ultimately have "sorted_wrt (\<lambda>x y. order_by_key x \<le> order_by_key y \<and> x \<noteq> y) ys"
    by (rule sorted_wrt_distinct)
  then have "sorted_wrt (\<lambda>x y. before (mk x) (mk y)) ys"
  proof (rule sorted_wrt_mono_rel [rotated])
    fix x y assume x: "x \<in> set ys" and y: "y \<in> set ys"
      and le: "order_by_key x \<le> order_by_key y \<and> x \<noteq> y"
    from x sys obtain h d where xe: "x = (Some h, Some d)" by (auto simp: group_of_def)
    from y sys obtain h' d' where ye: "y = (Some h', Some d')" by (auto simp: group_of_def)
    from order_by_key_before [OF xe ye] le have "h < h' \<or> (h = h' \<and> d < d')" by simp
    then show "before (mk x) (mk y)" by (simp add: before_def mk_def xe ye)
  qed
  then have p3: "sorted_wrt before (map mk ys)" by (simp add: sorted_wrt_map)
  from p1 p2 p3 show ?thesis unfolding res by blast
qed


theorem toddow_groups_witness:
  "toddow ex_backends Map.empty ex_records =
     [\<lparr>tod = Some 0, dow = Some 2, count = 2\<rparr>, \<lparr>tod = Some 13, dow = Some 5, count = 1\<rparr>] \<and>
   (\<exists>h d. tod \<lparr>tod = Some 0, dow = Some 2, count = 2\<rparr> = Some h \<and>
      dow \<lparr>tod = Some 0, dow = Some 2, count = 2\<rparr> = Some d \<and> h < 24 \<and> 1 \<le> d \<and> d \<le> 7 \<and>
      count \<lparr>tod = Some 0, dow = Some 2, count = 2\<rparr> =
        length (filter (\<lambda>r. passes ex_backends Map.empty r \<and>
                             hour (occurred_from r) = h \<and>
                             week_day (occurred_from r) = d) ex_records) \<and>
      0 < count \<lparr>tod = Some 0, dow = Some 2, count = 2\<rparr>) \<and>
   set (map (\<lambda>g. (tod g, dow g)) (toddow ex_backends Map.empty ex_records)) =
     (\<lambda>r. (Some (hour (occurred_from r)), Some (week_day (occurred_from r)))) `
       {r \<in> set ex_records. passes ex_backends Map.empty r} \<and>
   sorted_wrt before (toddow ex_backends Map.empty ex_records)"
proof -
  have e: "toddow ex_backends Map.empty ex_records =
     [\<lparr>tod = Some 0, dow = Some 2, count = 2\<rparr>, \<lparr>tod = Some 13, dow = Some 5, count = 1\<rparr>]"
    by code_simp
  note t = toddow_groups [of ex_backends Map.empty ex_records]
  have m: "\<lparr>tod = Some 0, dow = Some 2, count = 2\<rparr> \<in> set (toddow ex_backends Map.empty ex_records)"
    by (simp only: e list.set insertI1)
  from t have a: "\<forall>g \<in> set (toddow ex_backends Map.empty ex_records).
      \<exists>h d. tod g = Some h \<and> dow g = Some d \<and> h < 24 \<and> 1 \<le> d \<and> d \<le> 7 \<and>
        count g = length (filter (\<lambda>r. passes ex_backends Map.empty r \<and>
                                     hour (occurred_from r) = h \<and>
                                     week_day (occurred_from r) = d) ex_records) \<and>
        0 < count g"
    by (rule conjunct1)
  from t have b: "set (map (\<lambda>g. (tod g, dow g)) (toddow ex_backends Map.empty ex_records)) =
     (\<lambda>r. (Some (hour (occurred_from r)), Some (week_day (occurred_from r)))) `
       {r \<in> set ex_records. passes ex_backends Map.empty r} \<and>
   sorted_wrt before (toddow ex_backends Map.empty ex_records)"
    by (rule conjunct2)
  from bspec [OF a m] e b show ?thesis by (intro conjI) (simp_all only: simp_thms)
qed

section \<open>Recent counts\<close>

lemma durations_step:
  "foldl (\<lambda>c (l, days). add_count c l (w days)) (counts_dict a b y) durations =
   counts_dict (a + w 30) (b + w 90) (y + w 365)"
  by (rule ext) (simp add: durations_def add_count_def counts_dict_def)

lemma schemas_fold:
  "foldl (\<lambda>counts s. foldl (\<lambda>c (l, days). add_count c l (w s days)) counts durations)
     (counts_dict a b y) ss =
   counts_dict (a + sum_list (map (\<lambda>s. w s 30) ss)) (b + sum_list (map (\<lambda>s. w s 90) ss))
       (y + sum_list (map (\<lambda>s. w s 365) ss))"
proof (induction ss arbitrary: a b y)
  case Nil
  then show ?case by simp
next
  case (Cons s ss)
  show ?case
    by (simp only: foldl_Cons durations_step [of "w s"] Cons.IH) (simp add: add.assoc)
qed

lemma objects_get_key:
  "objects_get (\<lambda>t. rt_pk t = key) types = Inr rtype \<Longrightarrow> rt_pk rtype = key"
proof -
  assume "objects_get (\<lambda>t. rt_pk t = key) types = Inr rtype"
  then have "filter (\<lambda>t. rt_pk t = key) types = [rtype]" by (rule objects_get_Inr)
  then have "rtype \<in> set (filter (\<lambda>t. rt_pk t = key) types)" by simp
  then show ?thesis by simp
qed

lemma recent_counts_eq:
  assumes "objects_get (\<lambda>t. rt_pk t = key) types = Inr rtype"
  shows "recent_counts types rows recs now key =
     Inr (counts_dict (sum_list (map (\<lambda>s. window_count recs s now 30) (of_type key rows)))
              (sum_list (map (\<lambda>s. window_count recs s now 90) (of_type key rows)))
              (sum_list (map (\<lambda>s. window_count recs s now 365) (of_type key rows))))"
proof -
  have z: "[''month'' \<mapsto> 0, ''quarter'' \<mapsto> 0, ''year'' \<mapsto> 0] = counts_dict 0 0 0"
    by (simp add: counts_dict_def)
  show ?thesis
    unfolding recent_counts_def assms sum.case objects_get_key [OF assms] z
      schemas_fold [of "\<lambda>s. window_count recs s now"]
    by simp
qed

lemma sum_windows:
  assumes "distinct (map f xs)"
  shows "sum_list (map (\<lambda>x. length (filter (\<lambda>r. g r = f x \<and> P r) rs)) xs) =
         length (filter (\<lambda>r. g r \<in> set (map f xs) \<and> P r) rs)"
  using assms
proof (induction xs)
  case Nil
  then show ?case by simp
next
  case (Cons x xs)
  have "length (filter (\<lambda>r. g r \<in> set (map f (x # xs)) \<and> P r) rs) =
        length (filter (\<lambda>r. g r = f x \<and> P r) rs) +
        length (filter (\<lambda>r. g r \<in> set (map f xs) \<and> P r) rs)"
    using Cons.prems by (induction rs) auto
  with Cons show ?case by simp
qed


text \<open>
  Claim C4. For an existing record type, \<open>recent_counts\<close> returns the dictionary whose
  values for \<open>month\<close>, \<open>quarter\<close> and \<open>year\<close> are, for the windows of 30, 90 and 365
  days ending at \<open>now\<close>, the sum over every schema row of the type of the number of its
  records with \<open>occurred_from\<close> in the closed interval. When primary keys are distinct,
  that sum is the number of records in the window bound to any version of the type, the
  older versions included.
\<close>

theorem recent_counts_windows:
  "(objects_get (\<lambda>t. rt_pk t = key) types = Inr rtype \<longrightarrow>
      recent_counts types rows recs now key =
        Inr [''month'' \<mapsto> recentCounts_spec rows recs now key 30,
             ''quarter'' \<mapsto> recentCounts_spec rows recs now key 90,
             ''year'' \<mapsto> recentCounts_spec rows recs now key 365]) \<and>
   (distinct (map pk rows') \<longrightarrow>
      recentCounts_spec rows' recs now key days =
        length (filter (\<lambda>r. schema_id r \<in> set (map pk (of_type key rows')) \<and>
                             in_window now days r) recs))"
proof (intro conjI impI)
  assume a: "objects_get (\<lambda>t. rt_pk t = key) types = Inr rtype"
  have w: "window_count recs s now days =
           length (filter (\<lambda>r. schema_id r = pk s \<and> in_window now days r) recs)" for s days
    unfolding window_count_def Let_def timedelta_days_def in_window_def
    by (rule arg_cong [where f = length], rule filter_cong) auto
  show "recent_counts types rows recs now key =
        Inr [''month'' \<mapsto> recentCounts_spec rows recs now key 30,
             ''quarter'' \<mapsto> recentCounts_spec rows recs now key 90,
             ''year'' \<mapsto> recentCounts_spec rows recs now key 365]"
    unfolding recent_counts_eq [OF a] recentCounts_spec_def w counts_dict_def ..
next
  assume "distinct (map pk rows')"
  then have "distinct (map pk (of_type key rows'))" by (rule distinct_pk_of_type)
  from sum_windows [OF this, of schema_id "in_window now days" recs]
  show "recentCounts_spec rows' recs now key days =
        length (filter (\<lambda>r. schema_id r \<in> set (map pk (of_type key rows')) \<and>
                             in_window now days r) recs)"
    by (simp add: recentCounts_spec_def)
qed

theorem recent_counts_windows_witness:
  "objects_get (\<lambda>t. rt_pk t = PStr ''incident'') ex_types = Inr (ex_types ! 0) \<and>
   distinct (map pk ex_rows) \<and>
   recent_counts ex_types ex_rows ex_recent 100000000 (PStr ''incident'') =
     Inr [''month'' \<mapsto> recentCounts_spec ex_rows ex_recent 100000000 (PStr ''incident'') 30,
          ''quarter'' \<mapsto> recentCounts_spec ex_rows ex_recent 100000000 (PStr ''incident'') 90,
          ''year'' \<mapsto> recentCounts_spec ex_rows ex_recent 100000000 (PStr ''incident'') 365] \<and>
   recentCounts_spec ex_rows ex_recent 100000000 (PStr ''incident'') 30 = 2 \<and>
   recentCounts_spec ex_rows ex_recent 100000000 (PStr ''incident'') 90 = 3 \<and>
   recentCounts_spec ex_rows ex_recent 100000000 (PStr ''incident'') 365 = 4 \<and>
   recentCounts_spec ex_rows ex_recent 100000000 (PStr ''incident'') 365 =
     length (filter (\<lambda>r. schema_id r \<in> set (map pk (of_type (PStr ''incident'') ex_rows)) \<and>
                          in_window 100000000 365 r) ex_recent)"
proof -
  have a: "objects_get (\<lambda>t. rt_pk t = PStr ''incident'') ex_types = Inr (ex_types ! 0)"
    by (simp add: objects_get_def ex_types_def)
  have d: "distinct (map pk ex_rows)"
    by (simp add: ex_rows_def)
  have m: "recentCounts_spec ex_rows ex_recent 100000000 (PStr ''incident'') 30 = 2"
    by code_simp
  have q: "recentCounts_spec ex_rows ex_recent 100000000 (PStr ''incident'') 90 = 3"
    by code_simp
  have y: "recentCounts_spec ex_rows ex_recent 100000000 (PStr ''incident'') 365 = 4"
    by code_simp
  note t = recent_counts_windows [where key = "PStr ''incident''" and types = ex_types
      and rtype = "ex_types ! 0" and rows = ex_rows and recs = ex_recent and now = 100000000
      and rows' = ex_rows and days = 365]
  from t a d have
    "recent_counts ex_types ex_rows ex_recent 100000000 (PStr ''incident'') =
     Inr [''month'' \<mapsto> recentCounts_spec ex_rows ex_recent 100000000 (PStr ''incident'') 30,
          ''quarter'' \<mapsto> recentCounts_spec ex_rows ex_recent 100000000 (PStr ''incident'') 90,
          ''year'' \<mapsto> recentCounts_spec ex_rows ex_recent 100000000 (PStr ''incident'') 365]"
    and "recentCounts_spec ex_rows ex_recent 100000000 (PStr ''incident'') 365 =
     length (filter (\<lambda>r. schema_id r \<in> set (map pk (of_type (PStr ''incident'') ex_rows)) \<and>
                          in_window 100000000 365 r) ex_recent)"
    by blast+
  with a d m q y show ?thesis by (intro conjI)
qed



section \<open>Creating a boundary\<close>

text \<open>
  Claim C5. Whatever the inherited create is: when it raises \<open>IntegrityError\<close> the view
  answers with status 409 and the body \<open>uniqueness constraint violation\<close>, and the table
  is the one the inherited create left; in every other case the outcome of the inherited
  create is passed on unchanged. For the table with unique labels: a boundary whose label
  is already stored gets the 409 response and the table is unchanged, and a boundary with
  a new label is created as usual.
\<close>

theorem BoundaryViewSet_create_conflict:
  "(super_create request db = (Inl IntegrityError, db') \<longrightarrow>
      BoundaryViewSet_create super_create request db =
        (Inr (Response (ErrorBody [(''error'', ''uniqueness constraint violation'')]) 409), db')) \<and>
   (fst (other_create request db) \<noteq> Inl IntegrityError \<longrightarrow>
      BoundaryViewSet_create other_create request db = other_create request db) \<and>
   (l \<in> set (map b_label rows) \<longrightarrow>
      BoundaryViewSet_create ModelViewSet_create l rows =
        (Inr (Response (ErrorBody [(''error'', ''uniqueness constraint violation'')]) 409), rows)) \<and>
   (l' \<notin> set (map b_label rows) \<longrightarrow>
      BoundaryViewSet_create ModelViewSet_create l' rows =
        (Inr (Response (BoundaryBody \<lparr>b_pk = length rows, b_label = l'\<rparr>) 201),
         rows @ [\<lparr>b_pk = length rows, b_label = l'\<rparr>]))"
proof (intro conjI impI)
  assume "super_create request db = (Inl IntegrityError, db')"
  then show "BoundaryViewSet_create super_create request db =
        (Inr (Response (ErrorBody [(''error'', ''uniqueness constraint violation'')]) 409), db')"
    by (simp add: BoundaryViewSet_create_def)
next
  assume a: "fst (other_create request db) \<noteq> Inl IntegrityError"
  obtain res db1 where e: "other_create request db = (res, db1)"
    by (cases "other_create request db")
  with a have "res \<noteq> Inl IntegrityError" by simp
  with e show "BoundaryViewSet_create other_create request db = other_create request db"
    by (cases res) (auto simp: BoundaryViewSet_create_def)
next
  assume "l \<in> set (map b_label rows)"
  then show "BoundaryViewSet_create ModelViewSet_create l rows =
        (Inr (Response (ErrorBody [(''error'', ''uniqueness constraint violation'')]) 409), rows)"
    by (simp add: BoundaryViewSet_create_def ModelViewSet_create_def)
next
  assume "l' \<notin> set (map b_label rows)"
  then show "BoundaryViewSet_create ModelViewSet_create l' rows =
        (Inr (Response (BoundaryBody \<lparr>b_pk = length rows, b_label = l'\<rparr>) 201),
         rows @ [\<lparr>b_pk = length rows, b_label = l'\<rparr>])"
    by (simp add: BoundaryViewSet_create_def ModelViewSet_create_def Let_def)
qed

theorem BoundaryViewSet_create_conflict_witness:
  "ModelViewSet_create ''districts'' ex_boundaries = (Inl IntegrityError, ex_boundaries) \<and>
   fst (ModelViewSet_create ''wards'' ex_boundaries) \<noteq> Inl IntegrityError \<and>
   ''districts'' \<in> set (map b_label ex_boundaries) \<and>
   ''wards'' \<notin> set (map b_label ex_boundaries) \<and>
   BoundaryViewSet_create ModelViewSet_create ''districts'' ex_boundaries =
     (Inr (Response (ErrorBody [(''error'', ''uniqueness constraint violation'')]) 409),
      ex_boundaries) \<and>
   BoundaryViewSet_create ModelViewSet_create ''wards'' ex_boundaries =
     (Inr (Response (BoundaryBody \<lparr>b_pk = length ex_boundaries, b_label = ''wards''\<rparr>) 201),
      ex_boundaries @ [\<lparr>b_pk = length ex_boundaries, b_label = ''wards''\<rparr>])"
proof -
  have a: "ModelViewSet_create ''districts'' ex_boundaries = (Inl IntegrityError, ex_boundaries)"
    by (simp add: ModelViewSet_create_def ex_boundaries_def)
  have b: "fst (ModelViewSet_create ''wards'' ex_boundaries) \<noteq> Inl IntegrityError"
    by (simp add: ModelViewSet_create_def ex_boundaries_def Let_def)
  have c: "''districts'' \<in> set (map b_label ex_boundaries)"
    by (simp add: ex_boundaries_def)
  have d: "''wards'' \<notin> set (map b_label ex_boundaries)"
    by (simp add: ex_boundaries_def)
  note t = BoundaryViewSet_create_conflict [where super_create = ModelViewSet_create
      and request = "''districts''" and db = ex_boundaries and db' = ex_boundaries
      and other_create = ModelViewSet_create and l = "''districts''" and rows = ex_boundaries
      and l' = "''wards''"]
  from t a b c d show ?thesis by blast
qed

section \<open>The query diagnostic of the record list\<close>




end
